theory Spec2Isabelle
  imports Main
begin

section \<open>Strings, errors and fields\<close>

text \<open>
  A Python \<open>str\<close> is a sequence of code points. The model uses HOL's \<open>string\<close>, whose
  characters are the code points below 256 (the Latin-1 range); \<open>length\<close> counts
  characters, as Python's \<open>len\<close> does.

  The exceptions the contact book raises are values of \<open>error\<close>. The source raises
  \<open>ValueError\<close> with three different messages and \<open>KeyError\<close> with one; the
  constructors keep them apart. \<open>LibValueError\<close> and \<open>LibOverflowError\<close> are the
  \<open>ValueError\<close> and \<open>OverflowError\<close> that the \<open>datetime\<close> library raises by itself.
\<close>

datatype error =
    InvalidPhone         \<comment> \<open>ValueError: the phone number must contain 10 digits\<close>
  | PhoneNotFound        \<comment> \<open>ValueError: phone number not found\<close>
  | InvalidDateFormat    \<comment> \<open>ValueError: wrong date format, use DD.MM.YYYY\<close>
  | NotFound             \<comment> \<open>KeyError: contact not found\<close>
  | LibValueError        \<comment> \<open>ValueError raised inside datetime\<close>
  | LibOverflowError     \<comment> \<open>OverflowError raised inside datetime\<close>

text \<open>\<open>class Field\<close>: an object with one attribute, the raw value; \<open>__str__\<close> returns it.\<close>

datatype field = Field (field_value: string)

definition Field_str :: "field \<Rightarrow> string" where
  "Field_str f = field_value f"

subsection \<open>Character classes\<close>

text \<open>
  \<open>str.isdigit\<close> is true of a character whose Unicode property Numeric_Type is Decimal
  or Digit. Below code point 256 these are the ten ASCII digits and the superscript
  digits U+00B2, U+00B3 and U+00B9. The decimal digits (category Nd, what \<open>\d\<close> matches
  in a regular expression and what \<open>int\<close> reads) are, in this range, the ASCII ones only.
\<close>

definition is_decimal :: "char \<Rightarrow> bool" where
  "is_decimal c = (48 \<le> (of_char c :: nat) \<and> (of_char c :: nat) \<le> 57)"

definition char_isdigit :: "char \<Rightarrow> bool" where
  "char_isdigit c = (is_decimal c \<or> (of_char c :: nat) = 178
                       \<or> (of_char c :: nat) = 179 \<or> (of_char c :: nat) = 185)"

text \<open>\<open>s.isdigit()\<close>: every character is a digit and there is at least one.\<close>

definition isdigit :: "string \<Rightarrow> bool" where
  "isdigit s = (s \<noteq> [] \<and> list_all char_isdigit s)"

subsection \<open>Phone\<close>

text \<open>
  \<open>Phone.validate\<close>:
  \<^verbatim>\<open>if len(self.value) != 10 or not self.value.isdigit(): raise ValueError(...)\<close>
\<close>

definition validate :: "field \<Rightarrow> error + unit" where
  "validate p = (if length (field_value p) \<noteq> 10 \<or> \<not> isdigit (field_value p)
                 then Inl InvalidPhone else Inr ())"

section \<open>Calendar dates\<close>

text \<open>
  The part of Python's \<open>datetime.date\<close> that the contact book uses: the proleptic
  Gregorian calendar, years 1 to 9999. A \<open>date\<close> object always satisfies
  \<open>valid_date\<close>; constructing one from other fields raises \<open>ValueError\<close>.
\<close>

record date =
  year :: int
  month :: int
  day :: int

definition is_leap :: "int \<Rightarrow> bool" where
  "is_leap y = (y mod 4 = 0 \<and> (y mod 100 \<noteq> 0 \<or> y mod 400 = 0))"

definition days_in_month :: "int \<Rightarrow> int \<Rightarrow> int" where
  "days_in_month y m =
     (if m = 2 then (if is_leap y then 29 else 28)
      else if m = 4 \<or> m = 6 \<or> m = 9 \<or> m = 11 then 30 else 31)"

definition days_before_year :: "int \<Rightarrow> int" where
  "days_before_year y =
     (y - 1) * 365 + (y - 1) div 4 - (y - 1) div 100 + (y - 1) div 400"

definition days_before_month :: "int \<Rightarrow> int \<Rightarrow> int" where
  "days_before_month y m =
     (if m = 1 then 0 else if m = 2 then 31 else if m = 3 then 59
      else if m = 4 then 90 else if m = 5 then 120 else if m = 6 then 151
      else if m = 7 then 181 else if m = 8 then 212 else if m = 9 then 243
      else if m = 10 then 273 else if m = 11 then 304 else 334)
     + (if m > 2 \<and> is_leap y then 1 else 0)"

definition valid_date :: "date \<Rightarrow> bool" where
  "valid_date dt =
     (1 \<le> year dt \<and> year dt \<le> 9999 \<and> 1 \<le> month dt \<and> month dt \<le> 12
      \<and> 1 \<le> day dt \<and> day dt \<le> days_in_month (year dt) (month dt))"

text \<open>
  A day of the calendar in any year: what \<open>valid_date\<close> asks of month and day. The
  arithmetic of ordinals below needs no more than this.
\<close>

definition calendar_day :: "date \<Rightarrow> bool" where
  "calendar_day dt =
     (1 \<le> month dt \<and> month dt \<le> 12
      \<and> 1 \<le> day dt \<and> day dt \<le> days_in_month (year dt) (month dt))"

text \<open>\<open>date(y, m, d)\<close>: the constructor checks the fields.\<close>

definition mk_date :: "int \<Rightarrow> int \<Rightarrow> int \<Rightarrow> error + date" where
  "mk_date y m d =
     (if valid_date \<lparr>year = y, month = m, day = d\<rparr>
      then Inr \<lparr>year = y, month = m, day = d\<rparr> else Inl LibValueError)"

text \<open>\<open>dt.replace(year=y)\<close> builds a new date from the changed fields.\<close>

definition replace_year :: "date \<Rightarrow> int \<Rightarrow> error + date" where
  "replace_year dt y = mk_date y (month dt) (day dt)"

text \<open>\<open>dt.toordinal()\<close>: 1 for 0001-01-01. \<open>dt.weekday()\<close>: Monday is 0.\<close>

definition toordinal :: "date \<Rightarrow> int" where
  "toordinal dt = days_before_year (year dt) + days_before_month (year dt) (month dt) + day dt"

definition weekday :: "date \<Rightarrow> int" where
  "weekday dt = (toordinal dt + 6) mod 7"

text \<open>\<open>a < b\<close> on dates compares (year, month, day) lexicographically.\<close>

definition date_less :: "date \<Rightarrow> date \<Rightarrow> bool" where
  "date_less a b =
     (year a < year b \<or> (year a = year b \<and>
        (month a < month b \<or> (month a = month b \<and> day a < day b))))"

text \<open>
  \<open>dt + timedelta(days=n)\<close> for \<open>n \<ge> 0\<close>: the date \<open>n\<close> days later, and
  \<open>OverflowError\<close> when that is past 9999-12-31 (ordinal 3652059). The date is
  reached by stepping to the next day \<open>n\<close> times; \<open>date_add_valid\<close> below shows
  that this is the valid date whose ordinal is \<open>n\<close> more.
\<close>

definition next_day :: "date \<Rightarrow> date" where
  "next_day dt =
     (if day dt < days_in_month (year dt) (month dt) then dt\<lparr>day := day dt + 1\<rparr>
      else if month dt < 12 then dt\<lparr>month := month dt + 1, day := 1\<rparr>
      else \<lparr>year = year dt + 1, month = 1, day = 1\<rparr>)"

fun add_days :: "date \<Rightarrow> nat \<Rightarrow> date" where
  "add_days dt 0 = dt"
| "add_days dt (Suc n) = add_days (next_day dt) n"

definition MAXORDINAL :: int where
  "MAXORDINAL = 3652059"

definition date_add :: "date \<Rightarrow> nat \<Rightarrow> error + date" where
  "date_add dt n =
     (if toordinal dt + int n \<le> MAXORDINAL then Inr (add_days dt n)
      else Inl LibOverflowError)"

subsection \<open>Formatting\<close>

text \<open>
  \<open>strftime\<close> with the directives \<open>%Y\<close>, \<open>%m\<close> and \<open>%d\<close>: the year in four digits,
  month and day in two, padded with zeros. (For a year below 1000 the C library of
  some platforms writes \<open>%Y\<close> without the zeros; the dates formatted here come from
  the clock.)
\<close>

definition digit_char :: "int \<Rightarrow> char" where
  "digit_char k = ''0123456789'' ! nat k"

definition zfill2 :: "int \<Rightarrow> string" where
  "zfill2 n = [digit_char (n div 10 mod 10), digit_char (n mod 10)]"

definition zfill4 :: "int \<Rightarrow> string" where
  "zfill4 n = [digit_char (n div 1000 mod 10), digit_char (n div 100 mod 10),
               digit_char (n div 10 mod 10), digit_char (n mod 10)]"

definition strftime_Ymd :: "date \<Rightarrow> string" where
  "strftime_Ymd dt = zfill4 (year dt) @ ''.'' @ zfill2 (month dt) @ ''.'' @ zfill2 (day dt)"

text \<open>
  \<open>strftime("%d.%m.%Y")\<close>, the same directives in the order of the birthday field. The
  contact book never formats a birthday; the parser is compared with this format
  below. How \<open>%Y\<close> writes a year below 1000 depends on the platform: the C library
  of Linux writes 999, others write 0999. The argument \<open>pads\<close> says whether the platform
  pads; from the year 1000 on it makes no difference. With padding the result is the
  pattern \<open>DD.MM.YYYY\<close>.
\<close>

definition unpadded :: "int \<Rightarrow> string" where
  "unpadded n =
     (if n < 10 then [digit_char n]
      else if n < 100 then zfill2 n
      else if n < 1000 then
        [digit_char (n div 100 mod 10), digit_char (n div 10 mod 10), digit_char (n mod 10)]
      else zfill4 n)"

definition strftime_Y :: "bool \<Rightarrow> int \<Rightarrow> string" where
  "strftime_Y pads y = (if pads then zfill4 y else unpadded y)"

definition strftime_dmY :: "bool \<Rightarrow> date \<Rightarrow> string" where
  "strftime_dmY pads dt =
     zfill2 (day dt) @ ''.'' @ zfill2 (month dt) @ ''.'' @ strftime_Y pads (year dt)"

subsection \<open>Parsing with the format \<open>%d.%m.%Y\<close>\<close>

text \<open>
  \<open>datetime.strptime(s, "%d.%m.%Y")\<close> compiles the format to the regular expression
  \<^verbatim>\<open>(3[0-1]|[1-2]\d|0[1-9]|[1-9]| [1-9])\.(1[0-2]|0[1-9]|[1-9])\.(\d\d\d\d)\<close>
  and matches it at the start of \<open>s\<close>. No match, or a match that stops before the end
  of \<open>s\<close>, is a \<open>ValueError\<close>; otherwise the three groups are read with \<open>int\<close> and
  the date is constructed, which is a \<open>ValueError\<close> again when there is no such day.

  A matcher returns every way to match a prefix, as pairs of the matched text and the
  rest, in the order in which a backtracking matcher tries them.

  In the strings of the model, whose characters are below U+0100, the decimal digits
  that \<open>\d\<close> matches and \<open>int\<close> reads are the ASCII digits. Python's strings have
  further decimal digits beyond that range, which the parser takes in the year and
  in the second place of a day from 10 to 29 (the other places are ranges of ASCII
  digits); these texts are outside the model.
\<close>

type_synonym matcher = "string \<Rightarrow> (string \<times> string) list"

definition in_range :: "char \<Rightarrow> char \<Rightarrow> char \<Rightarrow> bool" where
  "in_range lo hi c = ((of_char lo :: nat) \<le> of_char c \<and> (of_char c :: nat) \<le> of_char hi)"

definition one_char :: "(char \<Rightarrow> bool) \<Rightarrow> matcher" where
  "one_char P s = (case s of c # r \<Rightarrow> if P c then [([c], r)] else [] | [] \<Rightarrow> [])"

definition two_chars :: "(char \<Rightarrow> bool) \<Rightarrow> (char \<Rightarrow> bool) \<Rightarrow> matcher" where
  "two_chars P Q s = (case s of c # c' # r \<Rightarrow> if P c \<and> Q c' then [([c, c'], r)] else []
                | _ \<Rightarrow> [])"

definition re_d :: matcher where
  "re_d s = two_chars ((=) CHR ''3'') (in_range CHR ''0'' CHR ''1'') s
          @ two_chars (in_range CHR ''1'' CHR ''2'') is_decimal s
          @ two_chars ((=) CHR ''0'') (in_range CHR ''1'' CHR ''9'') s
          @ one_char (in_range CHR ''1'' CHR ''9'') s
          @ two_chars ((=) CHR '' '') (in_range CHR ''1'' CHR ''9'') s"

definition re_m :: matcher where
  "re_m s = two_chars ((=) CHR ''1'') (in_range CHR ''0'' CHR ''2'') s
          @ two_chars ((=) CHR ''0'') (in_range CHR ''1'' CHR ''9'') s
          @ one_char (in_range CHR ''1'' CHR ''9'') s"

definition re_Y :: matcher where
  "re_Y s = (case s of a # b # c # d # r \<Rightarrow>
               if is_decimal a \<and> is_decimal b \<and> is_decimal c \<and> is_decimal d
               then [([a, b, c, d], r)] else []
             | _ \<Rightarrow> [])"

definition re_dot :: "string \<Rightarrow> string list" where
  "re_dot s = (case s of c # r \<Rightarrow> if c = CHR ''.'' then [r] else [] | [] \<Rightarrow> [])"

text \<open>All matches of the whole expression: the three groups and the unmatched rest.\<close>

definition re_dmY :: "string \<Rightarrow> (string \<times> string \<times> string \<times> string) list" where
  "re_dmY s =
     concat (map (\<lambda>(d, r1).
       concat (map (\<lambda>r2.
         concat (map (\<lambda>(m, r3).
           concat (map (\<lambda>r4.
             map (\<lambda>(y, r5). (d, m, y, r5)) (re_Y r4))
           (re_dot r3)))
         (re_m r2)))
       (re_dot r1)))
     (re_d s))"

text \<open>The matches of a group that a full stop follows, with what follows the stop.\<close>

definition then_dot :: "(string \<times> string) list \<Rightarrow> (string \<times> string) list" where
  "then_dot ms = concat (map (\<lambda>(t, r1). map (Pair t) (re_dot r1)) ms)"

text \<open>\<open>int(text)\<close> on a group: decimal digits, after white space is stripped.\<close>

definition digit_val :: "char \<Rightarrow> int" where
  "digit_val c = int (of_char c) - 48"

definition py_int :: "string \<Rightarrow> int" where
  "py_int s = foldl (\<lambda>acc c. 10 * acc + digit_val c) 0 (dropWhile ((=) CHR '' '') s)"

definition strptime :: "string \<Rightarrow> error + date" where
  "strptime s =
     (case re_dmY s of
        [] \<Rightarrow> Inl LibValueError
      | (d, m, y, rest) # _ \<Rightarrow>
          if rest \<noteq> [] then Inl LibValueError
          else mk_date (py_int y) (py_int m) (py_int d))"

text \<open>
  Texts of ASCII digits that the parser accepts for a date: the day in two digits,
  or, below 10, as one digit or as a space and one digit; the month in two digits or,
  below 10, as one digit; the year in four digits.
\<close>

definition day_texts :: "int \<Rightarrow> string list" where
  "day_texts d =
     zfill2 d # (if d < 10 then [[digit_char d], [CHR '' '', digit_char d]] else [])"

definition month_texts :: "int \<Rightarrow> string list" where
  "month_texts m = zfill2 m # (if m < 10 then [[digit_char m]] else [])"

definition accepted_texts :: "date \<Rightarrow> string list" where
  "accepted_texts dt =
     concat (map (\<lambda>d. map (\<lambda>m. d @ ''.'' @ m @ ''.'' @ zfill4 (year dt))
                           (month_texts (month dt)))
                 (day_texts (day dt)))"

subsection \<open>Birthday\<close>

text \<open>
  \<open>Birthday.__init__\<close> parses the value only to check it: a \<open>ValueError\<close> of the parser
  is raised again with the message of the contact book, and on success the field
  keeps the string it was given.
\<close>

definition Birthday :: "string \<Rightarrow> error + field" where
  "Birthday v =
     (case strptime v of
        Inl LibValueError \<Rightarrow> Inl InvalidDateFormat
      | Inl e \<Rightarrow> Inl e
      | Inr _ \<Rightarrow> Inr (Field v))"

section \<open>Record\<close>

text \<open>
  One contact: \<open>self.name = Name(name)\<close>, \<open>self.phones = []\<close>, \<open>self.birthday = None\<close>.
  A method that can raise returns the outcome together with the record as the call
  leaves it, so that what an exception leaves behind is part of the model.
\<close>

record Record =
  name :: field
  phones :: "field list"
  birthday :: "field option"

definition Record_init :: "string \<Rightarrow> Record" where
  "Record_init n = \<lparr>name = Field n, phones = [], birthday = None\<rparr>"

text \<open>\<open>add_phone\<close>: \<^verbatim>\<open>phone.validate(); self.phones.append(phone)\<close>\<close>

definition add_phone :: "Record \<Rightarrow> field \<Rightarrow> (error + unit) \<times> Record" where
  "add_phone r phone =
     (case validate phone of
        Inl e \<Rightarrow> (Inl e, r)
      | Inr _ \<Rightarrow> (Inr (), r\<lparr>phones := phones r @ [phone]\<rparr>))"

text \<open>\<open>remove_phone\<close>: \<^verbatim>\<open>self.phones = [p for p in self.phones if str(p) != phone]\<close>\<close>

definition remove_phone :: "Record \<Rightarrow> string \<Rightarrow> Record" where
  "remove_phone r phone = r\<lparr>phones := filter (\<lambda>p. Field_str p \<noteq> phone) (phones r)\<rparr>"

text \<open>
  \<open>edit_phone\<close>:
  \<^verbatim>\<open>
  if old_phone not in [str(p) for p in self.phones]: raise ValueError(...)
  self.remove_phone(old_phone)
  self.add_phone(Phone(new_phone))
  \<close>
\<close>

definition edit_phone :: "Record \<Rightarrow> string \<Rightarrow> string \<Rightarrow> (error + unit) \<times> Record" where
  "edit_phone r old_phone new_phone =
     (if old_phone \<notin> set (map Field_str (phones r)) then (Inl PhoneNotFound, r)
      else add_phone (remove_phone r old_phone) (Field new_phone))"

text \<open>\<open>find_phone\<close>: the value of the first phone whose string is the argument.\<close>

fun find_phone_loop :: "field list \<Rightarrow> string \<Rightarrow> error + string" where
  "find_phone_loop [] phone = Inl PhoneNotFound"
| "find_phone_loop (p # ps) phone =
     (if Field_str p = phone then Inr (field_value p) else find_phone_loop ps phone)"

definition find_phone :: "Record \<Rightarrow> string \<Rightarrow> error + string" where
  "find_phone r phone = find_phone_loop (phones r) phone"

text \<open>
  \<open>Record.__str__\<close>:
  \<^verbatim>\<open>
  phones_str = '; '.join(str(p) for p in self.phones)
  return f"<name label>{self.name}<phones label>{phones_str}<birthday label>{self.birthday}"
  \<close>
  The three labels are Cyrillic text, outside the characters of \<open>string\<close>; they are
  arguments here. A record without a birthday prints Python's \<open>None\<close>.
\<close>

fun join :: "string \<Rightarrow> string list \<Rightarrow> string" where
  "join sep [] = []"
| "join sep [x] = x"
| "join sep (x # y # ys) = x @ sep @ join sep (y # ys)"

definition Record_str :: "string \<Rightarrow> string \<Rightarrow> string \<Rightarrow> Record \<Rightarrow> string" where
  "Record_str name_label phones_label birthday_label r =
     name_label @ Field_str (name r)
     @ phones_label @ join ''; '' (map Field_str (phones r))
     @ birthday_label @ (case birthday r of None \<Rightarrow> ''None'' | Some b \<Rightarrow> Field_str b)"

text \<open>
  The assignment \<^verbatim>\<open>record.birthday = Birthday(dob)\<close> of \<open>Bot.add_birthday\<close> and
  \<open>Bot.add_user\<close>: when the constructor raises, nothing is assigned.
\<close>

definition set_birthday :: "Record \<Rightarrow> string \<Rightarrow> (error + unit) \<times> Record" where
  "set_birthday r dob =
     (case Birthday dob of
        Inl e \<Rightarrow> (Inl e, r)
      | Inr b \<Rightarrow> (Inr (), r\<lparr>birthday := Some b\<rparr>))"

section \<open>AddressBook\<close>

text \<open>
  \<open>self.data\<close> is a dictionary from names to records. A Python dictionary keeps its
  keys in insertion order: assigning to a key that is present replaces the value in
  place, assigning to a new key appends it, \<open>del\<close> removes the key.
\<close>

fun dict_set :: "('k \<times> 'v) list \<Rightarrow> 'k \<Rightarrow> 'v \<Rightarrow> ('k \<times> 'v) list" where
  "dict_set [] k v = [(k, v)]"
| "dict_set ((k', v') # kvs) k v =
     (if k' = k then (k, v) # kvs else (k', v') # dict_set kvs k v)"

definition dict_del :: "('k \<times> 'v) list \<Rightarrow> 'k \<Rightarrow> ('k \<times> 'v) list" where
  "dict_del kvs k = filter (\<lambda>kv. fst kv \<noteq> k) kvs"

record AddressBook =
  data :: "(string \<times> Record) list"

definition AddressBook_init :: AddressBook where
  "AddressBook_init = \<lparr>data = []\<rparr>"

text \<open>\<open>add_record\<close>: \<^verbatim>\<open>self.data[record.name.value] = record\<close>\<close>

definition add_record :: "AddressBook \<Rightarrow> Record \<Rightarrow> (error + unit) \<times> AddressBook" where
  "add_record book r =
     (Inr (), book\<lparr>data := dict_set (data book) (field_value (name r)) r\<rparr>)"

text \<open>\<open>find\<close>: \<open>KeyError\<close> when the name is not a key, the record otherwise.\<close>

definition find_record :: "AddressBook \<Rightarrow> string \<Rightarrow> error + Record" where
  "find_record book n =
     (case map_of (data book) n of None \<Rightarrow> Inl NotFound | Some r \<Rightarrow> Inr r)"

text \<open>\<open>delete\<close>: \<open>KeyError\<close> when the name is not a key, \<open>del self.data[name]\<close> otherwise.\<close>

definition delete :: "AddressBook \<Rightarrow> string \<Rightarrow> (error + unit) \<times> AddressBook" where
  "delete book n =
     (case map_of (data book) n of
        None \<Rightarrow> (Inl NotFound, book)
      | Some _ \<Rightarrow> (Inr (), book\<lparr>data := dict_del (data book) n\<rparr>))"

subsection \<open>Upcoming birthdays\<close>

text \<open>
  \<open>get_upcoming_birthdays\<close> reads today's date from the clock; here it is an argument.
  An element of the result is the dictionary
  \<^verbatim>\<open>{"name": ..., "congratulation_date": ...}\<close>.
\<close>

record birthday_entry =
  entry_name :: string
  congratulation_date :: string

text \<open>
  The body of the loop for one record: the entry it appends, if any. \<open>congratulation\<close>
  is the part that works on \<open>record.birthday.value\<close> and the clock alone.
  \<^verbatim>\<open>
  if record.birthday is not None:
      birthday = datetime.strptime(record.birthday.value, "%d.%m.%Y").date()
                         .replace(year=today.year)
      if birthday < today:
          birthday = birthday.replace(year=today.year + 1)
      days_until_birthday = (birthday - today).days
      if 0 <= days_until_birthday <= 7:
          if birthday.weekday() >= 5:
              days_until_birthday += (7 - birthday.weekday())
          congratulation_date = today + timedelta(days=days_until_birthday)
          upcoming_birthdays.append({...})
  \<close>
\<close>

definition shifted_days :: "date \<Rightarrow> int \<Rightarrow> int" where
  "shifted_days bd days_until_birthday =
     (if weekday bd \<ge> 5 then days_until_birthday + (7 - weekday bd)
      else days_until_birthday)"

definition congratulation :: "date \<Rightarrow> string \<Rightarrow> error + date option" where
  "congratulation today raw =
     (case strptime raw of
        Inl e \<Rightarrow> Inl e
      | Inr parsed \<Rightarrow>
     (case replace_year parsed (year today) of
        Inl e \<Rightarrow> Inl e
      | Inr bd0 \<Rightarrow>
     (case (if date_less bd0 today then replace_year bd0 (year today + 1) else Inr bd0) of
        Inl e \<Rightarrow> Inl e
      | Inr bd \<Rightarrow>
          if 0 \<le> toordinal bd - toordinal today \<and> toordinal bd - toordinal today \<le> 7
          then
            (case date_add today (nat (shifted_days bd (toordinal bd - toordinal today))) of
               Inl e \<Rightarrow> Inl e
             | Inr cd \<Rightarrow> Inr (Some cd))
          else Inr None)))"

definition upcoming_entry :: "date \<Rightarrow> Record \<Rightarrow> error + birthday_entry option" where
  "upcoming_entry today r =
     (case birthday r of
        None \<Rightarrow> Inr None
      | Some b \<Rightarrow>
          (case congratulation today (field_value b) of
             Inl e \<Rightarrow> Inl e
           | Inr None \<Rightarrow> Inr None
           | Inr (Some cd) \<Rightarrow>
               Inr (Some \<lparr>entry_name = field_value (name r),
                          congratulation_date = strftime_Ymd cd\<rparr>)))"

fun upcoming_loop ::
  "date \<Rightarrow> Record list \<Rightarrow> birthday_entry list \<Rightarrow> error + birthday_entry list" where
  "upcoming_loop today [] upcoming_birthdays = Inr upcoming_birthdays"
| "upcoming_loop today (r # rs) upcoming_birthdays =
     (case upcoming_entry today r of
        Inl e \<Rightarrow> Inl e
      | Inr None \<Rightarrow> upcoming_loop today rs upcoming_birthdays
      | Inr (Some e) \<Rightarrow> upcoming_loop today rs (upcoming_birthdays @ [e]))"

definition get_upcoming_birthdays ::
  "date \<Rightarrow> AddressBook \<Rightarrow> (error + birthday_entry list) \<times> AddressBook" where
  "get_upcoming_birthdays today book =
     (upcoming_loop today (map snd (data book)) [], book)"

section \<open>Phone validation\<close>

lemma is_decimal_isdigit: "is_decimal c \<Longrightarrow> char_isdigit c"
  by (simp add: char_isdigit_def)

text \<open>
  Claim C3, as the code has it. Validation succeeds exactly on the strings of 10
  characters that are all digits in the sense of \<open>str.isdigit\<close>, and fails with the
  invalid-phone error on every other string. Every string of 10 decimal digits is
  among those accepted; the superscript digits are digits for \<open>str.isdigit\<close> too.
\<close>

theorem validate_phone_isdigit:
  "validate (Field s) =
     (if length s = 10 \<and> list_all char_isdigit s then Inr () else Inl InvalidPhone)
   \<and> (length s = 10 \<and> list_all is_decimal s \<longrightarrow> validate (Field s) = Inr ())"
  by (auto simp: validate_def isdigit_def list_all_iff is_decimal_isdigit)

theorem validate_phone_isdigit_witness:
  "validate (Field ''0123456789'') = Inr ()
   \<and> validate (Field ''12345'') = Inl InvalidPhone
   \<and> validate (Field ''012345678x'') = Inl InvalidPhone"
  using validate_phone_isdigit [of "''0123456789''"] validate_phone_isdigit [of "''12345''"]
    validate_phone_isdigit [of "''012345678x''"]
  by (simp add: is_decimal_def char_isdigit_def)

text \<open>
  Claim C3 as stated fails: the string of ten characters U+00B2 (superscript two) has
  10 characters, none of them a decimal digit, and validation succeeds on it.
\<close>

theorem validate_phone_superscript_counterexample:
  "length (replicate 10 (char_of (178::nat))) = 10
   \<and> \<not> list_all is_decimal (replicate 10 (char_of (178::nat)))
   \<and> validate (Field (replicate 10 (char_of (178::nat)))) = Inr ()"
  by (simp add: validate_def isdigit_def list_all_iff is_decimal_def char_isdigit_def)

section \<open>Editing a phone\<close>

text \<open>
  Claim C5. When no phone of the record equals \<open>old\<close> as a string, \<open>edit_phone\<close> fails
  with the phone-not-found error and the record is unchanged. Otherwise every phone
  equal to \<open>old\<close> is removed first and \<open>new\<close> is validated and appended afterwards:
  with a valid \<open>new\<close> the phones are the remaining ones followed by \<open>new\<close>, and with an
  invalid \<open>new\<close> the call fails with the invalid-phone error and leaves the record
  with \<open>old\<close> already removed.
\<close>

theorem edit_phone_not_found_or_remove_then_add:
  "(old \<notin> set (map Field_str (phones r)) \<longrightarrow>
      edit_phone r old new = (Inl PhoneNotFound, r))
   \<and> (old \<in> set (map Field_str (phones r)) \<longrightarrow>
        edit_phone r old new = add_phone (remove_phone r old) (Field new)
        \<and> phones (remove_phone r old) = filter (\<lambda>p. Field_str p \<noteq> old) (phones r)
        \<and> old \<notin> set (map Field_str (phones (remove_phone r old)))
        \<and> (validate (Field new) = Inr () \<longrightarrow>
             edit_phone r old new =
               (Inr (), r\<lparr>phones := filter (\<lambda>p. Field_str p \<noteq> old) (phones r) @ [Field new]\<rparr>))
        \<and> (validate (Field new) \<noteq> Inr () \<longrightarrow>
             edit_phone r old new =
               (Inl InvalidPhone, r\<lparr>phones := filter (\<lambda>p. Field_str p \<noteq> old) (phones r)\<rparr>)))"
  by (auto simp: edit_phone_def add_phone_def remove_phone_def validate_def split: sum.splits)

theorem edit_phone_witness:
  "edit_phone \<lparr>name = Field ''Ann'', phones = [Field ''1112223333'', Field ''5556667777''],
               birthday = None\<rparr> ''1112223333'' ''4445556666''
     = (Inr (), \<lparr>name = Field ''Ann'', phones = [Field ''5556667777'', Field ''4445556666''],
                 birthday = None\<rparr>)
   \<and> edit_phone \<lparr>name = Field ''Ann'', phones = [Field ''1112223333'', Field ''5556667777''],
               birthday = None\<rparr> ''1112223333'' ''12ab''
     = (Inl InvalidPhone, \<lparr>name = Field ''Ann'', phones = [Field ''5556667777''],
                 birthday = None\<rparr>)
   \<and> edit_phone \<lparr>name = Field ''Ann'', phones = [Field ''1112223333'', Field ''5556667777''],
               birthday = None\<rparr> ''0000000000'' ''4445556666''
     = (Inl PhoneNotFound, \<lparr>name = Field ''Ann'',
                 phones = [Field ''1112223333'', Field ''5556667777''], birthday = None\<rparr>)"
  using
    edit_phone_not_found_or_remove_then_add [of "''1112223333''"
      "\<lparr>name = Field ''Ann'', phones = [Field ''1112223333'', Field ''5556667777''],
        birthday = None\<rparr>" "''4445556666''"]
    edit_phone_not_found_or_remove_then_add [of "''1112223333''"
      "\<lparr>name = Field ''Ann'', phones = [Field ''1112223333'', Field ''5556667777''],
        birthday = None\<rparr>" "''12ab''"]
    edit_phone_not_found_or_remove_then_add [of "''0000000000''"
      "\<lparr>name = Field ''Ann'', phones = [Field ''1112223333'', Field ''5556667777''],
        birthday = None\<rparr>" "''4445556666''"]
  by (simp add: Field_str_def add_phone_def remove_phone_def validate_def isdigit_def
      is_decimal_def char_isdigit_def)

section \<open>The dictionary of records\<close>

lemma map_of_dict_set: "map_of (dict_set kvs k v) = (map_of kvs)(k \<mapsto> v)"
  by (induction kvs k v rule: dict_set.induct) (auto simp: fun_eq_iff)

lemma keys_dict_set: "fst ` set (dict_set kvs k v) = insert k (fst ` set kvs)"
  by (induction kvs k v rule: dict_set.induct) auto

lemma distinct_dict_set:
  "distinct (map fst kvs) \<Longrightarrow> distinct (map fst (dict_set kvs k v))"
  by (induction kvs k v rule: dict_set.induct) (auto simp: keys_dict_set)

lemma length_dict_set:
  "length (dict_set kvs k v) = (if k \<in> fst ` set kvs then length kvs else Suc (length kvs))"
  by (induction kvs k v rule: dict_set.induct) auto

lemma map_of_dict_del: "map_of (dict_del kvs k) = (map_of kvs)(k := None)"
  by (induction kvs) (auto simp: dict_del_def fun_eq_iff)

lemma keys_dict_del: "fst ` set (dict_del kvs k) = fst ` set kvs - {k}"
  by (auto simp: dict_del_def)

text \<open>
  Claim C6. \<open>add_record\<close> never fails and stores the record under its name: a
  \<open>find\<close> with that name afterwards succeeds and returns this record, whose name is
  the key. A record that was stored under the name before is replaced, not kept
  beside the new one: the keys are the old keys and the name, their number grows only
  when the name is new, and keys that were distinct stay distinct. Every other name
  finds what it found before.
\<close>

theorem add_record_then_find:
  "fst (add_record book r) = Inr ()
   \<and> find_record (snd (add_record book r)) (field_value (name r)) = Inr r
   \<and> (\<forall>r'. find_record (snd (add_record book r)) (field_value (name r)) = Inr r'
         \<longrightarrow> field_value (name r') = field_value (name r))
   \<and> (\<forall>n. n \<noteq> field_value (name r) \<longrightarrow>
         find_record (snd (add_record book r)) n = find_record book n)
   \<and> fst ` set (data (snd (add_record book r)))
       = insert (field_value (name r)) (fst ` set (data book))
   \<and> length (data (snd (add_record book r)))
       = (if field_value (name r) \<in> fst ` set (data book) then length (data book)
          else Suc (length (data book)))
   \<and> (distinct (map fst (data book)) \<longrightarrow>
         distinct (map fst (data (snd (add_record book r)))))"
  by (simp add: add_record_def find_record_def map_of_dict_set keys_dict_set
      length_dict_set distinct_dict_set)

theorem add_record_witness:
  "find_record (snd (add_record \<lparr>data = [(''Ann'', Record_init ''Ann'')]\<rparr>
       \<lparr>name = Field ''Ann'', phones = [Field ''1112223333''], birthday = None\<rparr>)) ''Ann''
     = Inr \<lparr>name = Field ''Ann'', phones = [Field ''1112223333''], birthday = None\<rparr>
   \<and> distinct (map fst (data (snd (add_record \<lparr>data = [(''Ann'', Record_init ''Ann'')]\<rparr>
       \<lparr>name = Field ''Ann'', phones = [Field ''1112223333''], birthday = None\<rparr>))))
   \<and> find_record (snd (add_record \<lparr>data = [(''Ann'', Record_init ''Ann'')]\<rparr>
       \<lparr>name = Field ''Bob'', phones = [], birthday = None\<rparr>)) ''Ann''
     = Inr (Record_init ''Ann'')"
  using add_record_then_find [of "\<lparr>data = [(''Ann'', Record_init ''Ann'')]\<rparr>"
      "\<lparr>name = Field ''Ann'', phones = [Field ''1112223333''], birthday = None\<rparr>"]
    add_record_then_find [of "\<lparr>data = [(''Ann'', Record_init ''Ann'')]\<rparr>"
      "\<lparr>name = Field ''Bob'', phones = [], birthday = None\<rparr>"]
  by (simp add: find_record_def)

text \<open>
  Claim C7. \<open>delete\<close> of a name that is not a key fails with the not-found error and
  leaves the directory as it was. \<open>delete\<close> of a key succeeds and removes it: a
  \<open>find\<close> with that name afterwards fails with the not-found error, and every other
  name finds what it found before.
\<close>

theorem delete_unknown_or_remove:
  "(n \<notin> fst ` set (data book) \<longrightarrow> delete book n = (Inl NotFound, book))
   \<and> (n \<in> fst ` set (data book) \<longrightarrow>
        fst (delete book n) = Inr ()
        \<and> find_record (snd (delete book n)) n = Inl NotFound
        \<and> n \<notin> fst ` set (data (snd (delete book n)))
        \<and> (\<forall>n'. n' \<noteq> n \<longrightarrow> find_record (snd (delete book n)) n' = find_record book n'))"
proof (cases "map_of (data book) n")
  case None
  then have "n \<notin> fst ` set (data book)"
    by (simp add: map_of_eq_None_iff)
  with None show ?thesis
    by (simp add: delete_def)
next
  case (Some r)
  then have "n \<in> fst ` set (data book)"
    by (metis map_of_eq_None_iff option.distinct(1))
  with Some show ?thesis
    by (simp add: delete_def find_record_def map_of_dict_del keys_dict_del)
qed

theorem delete_witness:
  "delete \<lparr>data = [(''Ann'', Record_init ''Ann'')]\<rparr> ''Bob''
     = (Inl NotFound, \<lparr>data = [(''Ann'', Record_init ''Ann'')]\<rparr>)
   \<and> fst (delete \<lparr>data = [(''Ann'', Record_init ''Ann''), (''Bob'', Record_init ''Bob'')]\<rparr> ''Ann'')
     = Inr ()
   \<and> find_record (snd (delete \<lparr>data = [(''Ann'', Record_init ''Ann''),
       (''Bob'', Record_init ''Bob'')]\<rparr> ''Ann'')) ''Ann'' = Inl NotFound
   \<and> find_record (snd (delete \<lparr>data = [(''Ann'', Record_init ''Ann''),
       (''Bob'', Record_init ''Bob'')]\<rparr> ''Ann'')) ''Bob'' = Inr (Record_init ''Bob'')"
  using delete_unknown_or_remove [of "''Bob''" "\<lparr>data = [(''Ann'', Record_init ''Ann'')]\<rparr>"]
    delete_unknown_or_remove [of "''Ann''"
      "\<lparr>data = [(''Ann'', Record_init ''Ann''), (''Bob'', Record_init ''Bob'')]\<rparr>"]
  by (simp add: find_record_def)

section \<open>Digits\<close>

lemma digit_cases: "0 \<le> k \<Longrightarrow> k < 10 \<Longrightarrow>
  k = 0 \<or> k = 1 \<or> k = 2 \<or> k = 3 \<or> k = 4 \<or> k = 5 \<or> k = 6 \<or> k = 7 \<or> k = 8 \<or> k = (9::int)"
  by arith

lemma digit_char_props:
  assumes "0 \<le> k" "k < 10"
  shows "is_decimal (digit_char k)" and "digit_val (digit_char k) = k"
    and "digit_char k \<noteq> CHR '' ''" and "digit_char k \<noteq> CHR ''.''"
    and "CHR '' '' \<noteq> digit_char k" and "CHR ''.'' \<noteq> digit_char k"
  using digit_cases [OF assms]
  by (auto simp: digit_char_def is_decimal_def digit_val_def)

lemma py_int_2:
  "0 \<le> a \<Longrightarrow> a < 10 \<Longrightarrow> 0 \<le> b \<Longrightarrow> b < 10 \<Longrightarrow> py_int [digit_char a, digit_char b] = 10 * a + b"
  by (simp add: py_int_def digit_char_props)

lemma py_int_4:
  "0 \<le> a \<Longrightarrow> a < 10 \<Longrightarrow> 0 \<le> b \<Longrightarrow> b < 10 \<Longrightarrow> 0 \<le> c \<Longrightarrow> c < 10 \<Longrightarrow> 0 \<le> d \<Longrightarrow> d < 10 \<Longrightarrow>
   py_int [digit_char a, digit_char b, digit_char c, digit_char d] = 1000 * a + 100 * b + 10 * c + d"
  by (simp add: py_int_def digit_char_props)

lemma decompose2: "0 \<le> n \<Longrightarrow> n < 100 \<Longrightarrow> 10 * (n div 10 mod 10) + n mod 10 = (n::int)"
  by simp

lemma decompose4:
  assumes "0 \<le> n" "n < 10000"
  shows "1000 * (n div 1000 mod 10) + 100 * (n div 100 mod 10) + 10 * (n div 10 mod 10) + n mod 10 = (n::int)"
proof -
  have e1: "n div 10 div 10 = n div 100"
    using zdiv_zmult2_eq [of 10 n 10] by simp
  have e2: "n div 100 div 10 = n div 1000"
    using zdiv_zmult2_eq [of 10 n 100] by simp
  have a: "n = 10 * (n div 10) + n mod 10" by simp
  have b: "n div 10 = 10 * (n div 10 div 10) + n div 10 mod 10" by simp
  have c: "n div 100 = 10 * (n div 100 div 10) + n div 100 mod 10" by simp
  have d: "n div 1000 mod 10 = n div 1000"
    using assms by simp
  show ?thesis using a b c d e1 e2 by linarith
qed

lemma py_int_zfill2:
  assumes "0 \<le> n" "n < 100" shows "py_int (zfill2 n) = n"
proof -
  have "py_int (zfill2 n) = 10 * (n div 10 mod 10) + n mod 10"
    unfolding zfill2_def by (rule py_int_2) simp_all
  also have "\<dots> = n" by (rule decompose2 [OF assms])
  finally show ?thesis .
qed

lemma py_int_zfill4:
  assumes "0 \<le> n" "n < 10000" shows "py_int (zfill4 n) = n"
proof -
  have "py_int (zfill4 n) = 1000 * (n div 1000 mod 10) + 100 * (n div 100 mod 10) + 10 * (n div 10 mod 10) + n mod 10"
    unfolding zfill4_def by (rule py_int_4) simp_all
  also have "\<dots> = n" by (rule decompose4 [OF assms])
  finally show ?thesis .
qed

lemma nat_48_57: "48 \<le> n \<Longrightarrow> n \<le> 57 \<Longrightarrow>
  n = 48 \<or> n = 49 \<or> n = 50 \<or> n = 51 \<or> n = 52 \<or> n = 53 \<or> n = 54 \<or> n = 55 \<or> n = 56 \<or> n = (57::nat)"
  by arith

lemma of_char_eqD: "(of_char c :: nat) = n \<Longrightarrow> of_char d = n \<Longrightarrow> c = d"
  by (rule of_char_eqI [where ?'a = nat]) simp

lemma decimal_cases:
  assumes "is_decimal c"
  shows "c = CHR ''0'' \<or> c = CHR ''1'' \<or> c = CHR ''2'' \<or> c = CHR ''3'' \<or> c = CHR ''4''
    \<or> c = CHR ''5'' \<or> c = CHR ''6'' \<or> c = CHR ''7'' \<or> c = CHR ''8'' \<or> c = CHR ''9''"
proof -
  have "48 \<le> (of_char c :: nat)" "(of_char c :: nat) \<le> 57"
    using assms by (simp_all add: is_decimal_def)
  from nat_48_57 [OF this] show ?thesis
  proof (elim disjE)
    assume "of_char c = (48::nat)"
    then have "c = CHR ''0''" by (rule of_char_eqD) simp
    then show ?thesis by simp
  next
    assume "of_char c = (49::nat)"
    then have "c = CHR ''1''" by (rule of_char_eqD) simp
    then show ?thesis by simp
  next
    assume "of_char c = (50::nat)"
    then have "c = CHR ''2''" by (rule of_char_eqD) simp
    then show ?thesis by simp
  next
    assume "of_char c = (51::nat)"
    then have "c = CHR ''3''" by (rule of_char_eqD) simp
    then show ?thesis by simp
  next
    assume "of_char c = (52::nat)"
    then have "c = CHR ''4''" by (rule of_char_eqD) simp
    then show ?thesis by simp
  next
    assume "of_char c = (53::nat)"
    then have "c = CHR ''5''" by (rule of_char_eqD) simp
    then show ?thesis by simp
  next
    assume "of_char c = (54::nat)"
    then have "c = CHR ''6''" by (rule of_char_eqD) simp
    then show ?thesis by simp
  next
    assume "of_char c = (55::nat)"
    then have "c = CHR ''7''" by (rule of_char_eqD) simp
    then show ?thesis by simp
  next
    assume "of_char c = (56::nat)"
    then have "c = CHR ''8''" by (rule of_char_eqD) simp
    then show ?thesis by simp
  next
    assume "of_char c = (57::nat)"
    then have "c = CHR ''9''" by (rule of_char_eqD) simp
    then show ?thesis by simp
  qed
qed

lemma decimal_digit_char:
  assumes "is_decimal c"
  shows "0 \<le> digit_val c \<and> digit_val c < 10 \<and> digit_char (digit_val c) = c"
  using decimal_cases [OF assms]
  by (elim disjE) (simp_all add: digit_val_def digit_char_def)

lemma in_range_decimal:
  "in_range lo hi c \<Longrightarrow> is_decimal lo \<Longrightarrow> is_decimal hi \<Longrightarrow> is_decimal c"
  by (simp add: in_range_def is_decimal_def)

lemma digits2:
  fixes a b :: int
  assumes "0 \<le> a" "a < 10" "0 \<le> b" "b < 10"
  shows "(10 * a + b) div 10 mod 10 = a" "(10 * a + b) mod 10 = b"
proof -
  have d: "(10 * a + b) div 10 = a"
    by (rule int_div_pos_eq [of _ _ _ b]) (use assms in simp_all)
  show "(10 * a + b) div 10 mod 10 = a"
    using assms by (simp add: d)
  show "(10 * a + b) mod 10 = b"
    using assms by simp
qed

lemma two_digits:
  assumes "is_decimal c" "is_decimal c'"
  shows "py_int [c, c'] = 10 * digit_val c + digit_val c'"
    and "zfill2 (10 * digit_val c + digit_val c') = [c, c']"
proof -
  note a = decimal_digit_char [OF assms(1)] and b = decimal_digit_char [OF assms(2)]
  have "py_int [digit_char (digit_val c), digit_char (digit_val c')]
      = 10 * digit_val c + digit_val c'"
    by (rule py_int_2) (use a b in simp_all)
  then show "py_int [c, c'] = 10 * digit_val c + digit_val c'"
    using a b by simp
  have "zfill2 (10 * digit_val c + digit_val c')
      = [digit_char (digit_val c), digit_char (digit_val c')]"
    unfolding zfill2_def
    using digits2 [of "digit_val c" "digit_val c'"] a b by simp
  then show "zfill2 (10 * digit_val c + digit_val c') = [c, c']"
    using a b by simp
qed

lemma one_digit:
  assumes "is_decimal c"
  shows "py_int [c] = digit_val c" and "py_int [CHR '' '', c] = digit_val c"
  using decimal_cases [OF assms]
  by (elim disjE; simp add: py_int_def digit_val_def)+

lemma digits4:
  fixes a b c d :: int
  assumes "0 \<le> a" "a < 10" "0 \<le> b" "b < 10" "0 \<le> c" "c < 10" "0 \<le> d" "d < 10"
  defines "n \<equiv> 1000 * a + 100 * b + 10 * c + d"
  shows "n div 1000 mod 10 = a" "n div 100 mod 10 = b" "n div 10 mod 10 = c" "n mod 10 = d"
proof -
  have d3: "n div 1000 = a"
    by (rule int_div_pos_eq [of _ _ _ "100 * b + 10 * c + d"]) (use assms in simp_all)
  have d2: "n div 100 = 10 * a + b"
    by (rule int_div_pos_eq [of _ _ _ "10 * c + d"]) (use assms in simp_all)
  have d1: "n div 10 = 100 * a + 10 * b + c"
    by (rule int_div_pos_eq [of _ _ _ d]) (use assms in simp_all)
  show "n div 1000 mod 10 = a"
    unfolding d3 using assms by simp
  show "n div 100 mod 10 = b"
    unfolding d2 by (rule int_mod_pos_eq [of _ _ a]) (use assms in simp_all)
  show "n div 10 mod 10 = c"
    unfolding d1 by (rule int_mod_pos_eq [of _ _ "10 * a + b"]) (use assms in simp_all)
  show "n mod 10 = d"
    by (rule int_mod_pos_eq [of _ _ "100 * a + 10 * b + c"]) (use assms in simp_all)
qed

lemma four_digits:
  assumes "is_decimal a" "is_decimal b" "is_decimal c" "is_decimal d"
  shows "0 \<le> py_int [a, b, c, d] \<and> py_int [a, b, c, d] < 10000
         \<and> zfill4 (py_int [a, b, c, d]) = [a, b, c, d]"
proof -
  note va = decimal_digit_char [OF assms(1)] and vb = decimal_digit_char [OF assms(2)]
    and vc = decimal_digit_char [OF assms(3)] and vd = decimal_digit_char [OF assms(4)]
  define n where "n = 1000 * digit_val a + 100 * digit_val b + 10 * digit_val c + digit_val d"
  have "py_int [digit_char (digit_val a), digit_char (digit_val b), digit_char (digit_val c),
      digit_char (digit_val d)] = n"
    unfolding n_def by (rule py_int_4) (use va vb vc vd in simp_all)
  then have p: "py_int [a, b, c, d] = n"
    using va vb vc vd by simp
  have "n div 1000 mod 10 = digit_val a" "n div 100 mod 10 = digit_val b"
    "n div 10 mod 10 = digit_val c" "n mod 10 = digit_val d"
    unfolding n_def by (rule digits4; use va vb vc vd in simp)+
  then have "zfill4 n = [a, b, c, d]"
    using va vb vc vd by (simp add: zfill4_def)
  moreover have "0 \<le> n" "n < 10000"
    using va vb vc vd by (simp_all add: n_def)
  ultimately show ?thesis
    using p by simp
qed

lemma in_range_digit_val:
  "in_range lo hi c \<Longrightarrow> digit_val lo \<le> digit_val c \<and> digit_val c \<le> digit_val hi"
  by (simp add: in_range_def digit_val_def)

lemma digit_val_literals [simp]:
  "digit_val CHR ''0'' = 0" "digit_val CHR ''1'' = 1" "digit_val CHR ''2'' = 2"
  "digit_val CHR ''3'' = 3" "digit_val CHR ''9'' = 9"
  by (simp_all add: digit_val_def)

lemma is_decimal_literals [simp]:
  "is_decimal CHR ''0''" "is_decimal CHR ''1''" "is_decimal CHR ''2''"
  "is_decimal CHR ''3''" "is_decimal CHR ''9''"
  by (simp_all add: is_decimal_def)

lemma two_digit_text:
  assumes "is_decimal c" "is_decimal c'"
  shows "[c, c'] \<in> set (day_texts (py_int [c, c']))"
    and "[c, c'] \<in> set (month_texts (py_int [c, c']))"
  using two_digits [OF assms] by (simp_all add: day_texts_def month_texts_def)

lemma one_digit_text:
  assumes "is_decimal c" "digit_val c < 10"
  shows "[c] \<in> set (day_texts (py_int [c]))"
    and "[CHR '' '', c] \<in> set (day_texts (py_int [CHR '' '', c]))"
    and "[c] \<in> set (month_texts (py_int [c]))"
  using one_digit [OF assms(1)] decimal_digit_char [OF assms(1)]
  by (simp_all add: day_texts_def month_texts_def)

section \<open>The language of the parser\<close>

lemma re_Y_zfill4: "re_Y (zfill4 n @ r) = [(zfill4 n, r)]"
  by (simp add: re_Y_def zfill4_def digit_char_props)

lemma day_cases: "1 \<le> d \<Longrightarrow> d \<le> 31 \<Longrightarrow>
  d = 1 \<or> d = 2 \<or> d = 3 \<or> d = 4 \<or> d = 5 \<or> d = 6 \<or> d = 7 \<or> d = 8 \<or> d = 9 \<or> d = 10
  \<or> d = 11 \<or> d = 12 \<or> d = 13 \<or> d = 14 \<or> d = 15 \<or> d = 16 \<or> d = 17 \<or> d = 18 \<or> d = 19
  \<or> d = 20 \<or> d = 21 \<or> d = 22 \<or> d = 23 \<or> d = 24 \<or> d = 25 \<or> d = 26 \<or> d = 27 \<or> d = 28
  \<or> d = 29 \<or> d = 30 \<or> d = (31::int)"
  by arith

lemma month_cases: "1 \<le> m \<Longrightarrow> m \<le> 12 \<Longrightarrow>
  m = 1 \<or> m = 2 \<or> m = 3 \<or> m = 4 \<or> m = 5 \<or> m = 6 \<or> m = 7 \<or> m = 8 \<or> m = 9 \<or> m = 10
  \<or> m = 11 \<or> m = (12::int)"
  by arith

lemma then_dot_bind:
  "concat (map (\<lambda>(t, r1). concat (map (F t) (re_dot r1))) ms)
     = concat (map (\<lambda>(t, r). F t r) (then_dot ms))"
  by (induction ms) (auto simp: then_dot_def re_dot_def split: list.splits)

lemma re_dmY_then_dot:
  "re_dmY s =
     concat (map (\<lambda>(d, r2).
       concat (map (\<lambda>(m, r4). map (\<lambda>(y, r5). (d, m, y, r5)) (re_Y r4))
         (then_dot (re_m r2))))
       (then_dot (re_d s)))"
  by (simp add: re_dmY_def then_dot_bind)

lemma two_chars_elem:
  "(t, r) \<in> set (two_chars P Q s) \<longleftrightarrow> (\<exists>c c'. s = c # c' # r \<and> t = [c, c'] \<and> P c \<and> Q c')"
  by (auto simp: two_chars_def split: list.splits)

lemma one_char_elem:
  "(t, r) \<in> set (one_char P s) \<longleftrightarrow> (\<exists>c. s = c # r \<and> t = [c] \<and> P c)"
  by (auto simp: one_char_def split: list.splits)

lemma then_dot_elem:
  "(t, r) \<in> set (then_dot ms) \<longleftrightarrow> (t, CHR ''.'' # r) \<in> set ms"
  by (auto simp: then_dot_def re_dot_def split: list.splits if_splits)

lemma re_d_elem:
  assumes "(t, r) \<in> set (re_d s)"
  shows "s = t @ r \<and> 1 \<le> py_int t \<and> py_int t \<le> 31 \<and> t \<in> set (day_texts (py_int t))"
proof -
  from assms consider
      (a) c c' where "s = c # c' # r" "t = [c, c']" "c = CHR ''3''" "in_range CHR ''0'' CHR ''1'' c'"
    | (b) c c' where "s = c # c' # r" "t = [c, c']" "in_range CHR ''1'' CHR ''2'' c" "is_decimal c'"
    | (c) c c' where "s = c # c' # r" "t = [c, c']" "c = CHR ''0''" "in_range CHR ''1'' CHR ''9'' c'"
    | (d) c where "s = c # r" "t = [c]" "in_range CHR ''1'' CHR ''9'' c"
    | (e) c where "s = CHR '' '' # c # r" "t = [CHR '' '', c]" "in_range CHR ''1'' CHR ''9'' c"
    by (auto simp: re_d_def two_chars_elem one_char_elem)
  then show ?thesis
  proof cases
    case a
    then have dc: "is_decimal c" "is_decimal c'"
      by (auto intro: in_range_decimal)
    from two_digits(1) [OF dc] two_digit_text(1) [OF dc] in_range_digit_val [OF a(4)] a
    show ?thesis by simp
  next
    case b
    then have dc: "is_decimal c" "is_decimal c'"
      by (auto intro: in_range_decimal)
    from two_digits(1) [OF dc] two_digit_text(1) [OF dc] in_range_digit_val [OF b(3)]
      decimal_digit_char [OF dc(2)] b
    show ?thesis by simp
  next
    case c
    then have dc: "is_decimal c" "is_decimal c'"
      by (auto intro: in_range_decimal)
    from two_digits(1) [OF dc] two_digit_text(1) [OF dc] in_range_digit_val [OF c(4)] c
    show ?thesis by simp
  next
    case d
    then have dc: "is_decimal c"
      by (auto intro: in_range_decimal)
    from one_digit(1) [OF dc] one_digit_text(1) [OF dc] in_range_digit_val [OF d(3)] d
    show ?thesis by simp
  next
    case e
    then have dc: "is_decimal c"
      by (auto intro: in_range_decimal)
    from one_digit(2) [OF dc] one_digit_text(2) [OF dc] in_range_digit_val [OF e(3)] e
    show ?thesis by simp
  qed
qed

lemma re_m_elem:
  assumes "(t, r) \<in> set (re_m s)"
  shows "s = t @ r \<and> 1 \<le> py_int t \<and> py_int t \<le> 12 \<and> t \<in> set (month_texts (py_int t))"
proof -
  from assms consider
      (a) c c' where "s = c # c' # r" "t = [c, c']" "c = CHR ''1''" "in_range CHR ''0'' CHR ''2'' c'"
    | (b) c c' where "s = c # c' # r" "t = [c, c']" "c = CHR ''0''" "in_range CHR ''1'' CHR ''9'' c'"
    | (c) c where "s = c # r" "t = [c]" "in_range CHR ''1'' CHR ''9'' c"
    by (auto simp: re_m_def two_chars_elem one_char_elem)
  then show ?thesis
  proof cases
    case a
    then have dc: "is_decimal c" "is_decimal c'"
      by (auto intro: in_range_decimal)
    from two_digits(1) [OF dc] two_digit_text(2) [OF dc] in_range_digit_val [OF a(4)] a
    show ?thesis by simp
  next
    case b
    then have dc: "is_decimal c" "is_decimal c'"
      by (auto intro: in_range_decimal)
    from two_digits(1) [OF dc] two_digit_text(2) [OF dc] in_range_digit_val [OF b(4)] b
    show ?thesis by simp
  next
    case c
    then have dc: "is_decimal c"
      by (auto intro: in_range_decimal)
    from one_digit(1) [OF dc] one_digit_text(3) [OF dc] in_range_digit_val [OF c(3)] c
    show ?thesis by simp
  qed
qed

lemma re_Y_elem:
  assumes "(y, r) \<in> set (re_Y s)"
  shows "s = y @ r \<and> 0 \<le> py_int y \<and> py_int y < 10000 \<and> zfill4 (py_int y) = y"
proof -
  from assms obtain a b c d where "s = a # b # c # d # r" "y = [a, b, c, d]"
    "is_decimal a" "is_decimal b" "is_decimal c" "is_decimal d"
    by (auto simp: re_Y_def split: list.splits if_splits)
  with four_digits [of a b c d] show ?thesis by simp
qed

lemma re_dmY_elem:
  assumes "(d, m, y, r) \<in> set (re_dmY s)"
  shows "s = d @ ''.'' @ m @ ''.'' @ y @ r
         \<and> d \<in> set (day_texts (py_int d)) \<and> m \<in> set (month_texts (py_int m))
         \<and> zfill4 (py_int y) = y"
proof -
  from assms obtain r2 r4 where "(d, r2) \<in> set (then_dot (re_d s))"
    "(m, r4) \<in> set (then_dot (re_m r2))" "(y, r) \<in> set (re_Y r4)"
    by (auto simp: re_dmY_then_dot)
  then show ?thesis
    by (auto simp: then_dot_elem dest!: re_d_elem re_m_elem re_Y_elem)
qed

lemma strptime_accepted:
  assumes "strptime s = Inr dt"
  shows "valid_date dt \<and> s \<in> set (accepted_texts dt)"
proof -
  from assms obtain d m y ms where m: "re_dmY s = (d, m, y, []) # ms"
    and dt: "mk_date (py_int y) (py_int m) (py_int d) = Inr dt"
    by (auto simp: strptime_def split: list.splits if_splits)
  from m have "(d, m, y, []) \<in> set (re_dmY s)" by simp
  from re_dmY_elem [OF this] have s: "s = d @ ''.'' @ m @ ''.'' @ y"
    and t: "d \<in> set (day_texts (py_int d))" "m \<in> set (month_texts (py_int m))"
      "zfill4 (py_int y) = y"
    by simp_all
  from dt have v: "valid_date dt" and f: "year dt = py_int y" "month dt = py_int m"
    "day dt = py_int d"
    by (auto simp: mk_date_def split: if_splits)
  from s t f have "s \<in> set (accepted_texts dt)"
    by (auto simp: accepted_texts_def)
  with v show ?thesis by simp
qed

lemma re_d_day_texts:
  assumes "1 \<le> d" "d \<le> 31" "t \<in> set (day_texts d)"
  shows "then_dot (re_d (t @ CHR ''.'' # r)) = [(t, r)] \<and> py_int t = d"
  using day_cases [OF assms(1,2)] assms(3)
  by (elim disjE)
    (auto simp: day_texts_def then_dot_def zfill2_def digit_char_def re_d_def two_chars_def
      one_char_def re_dot_def in_range_def is_decimal_def py_int_def digit_val_def)

lemma re_m_month_texts:
  assumes "1 \<le> m" "m \<le> 12" "t \<in> set (month_texts m)"
  shows "then_dot (re_m (t @ CHR ''.'' # r)) = [(t, r)] \<and> py_int t = m"
  using month_cases [OF assms(1,2)] assms(3)
  by (elim disjE)
    (auto simp: month_texts_def then_dot_def zfill2_def digit_char_def re_m_def two_chars_def
      one_char_def re_dot_def in_range_def is_decimal_def py_int_def digit_val_def)

lemma accepted_strptime:
  assumes "valid_date dt" "s \<in> set (accepted_texts dt)"
  shows "strptime s = Inr dt"
proof -
  have d: "1 \<le> day dt" "day dt \<le> 31" and m: "1 \<le> month dt" "month dt \<le> 12"
    and y: "0 \<le> year dt" "year dt < 10000"
    using assms(1) by (auto simp: valid_date_def days_in_month_def split: if_splits)
  from assms(2) obtain td tm where td: "td \<in> set (day_texts (day dt))"
    and tm: "tm \<in> set (month_texts (month dt))"
    and s: "s = td @ ''.'' @ tm @ ''.'' @ zfill4 (year dt)"
    by (auto simp: accepted_texts_def)
  note D = re_d_day_texts [OF d td] and M = re_m_month_texts [OF m tm]
  have "re_dmY s = [(td, tm, zfill4 (year dt), [])]"
    using re_Y_zfill4 [of "year dt" "[]"] by (simp add: s re_dmY_then_dot D M)
  then have "strptime s = mk_date (year dt) (month dt) (day dt)"
    using D M y by (simp add: strptime_def py_int_zfill4)
  moreover have "\<lparr>year = year dt, month = month dt, day = day dt\<rparr> = dt"
    by simp
  ultimately show ?thesis
    using assms(1) by (simp add: mk_date_def)
qed

text \<open>
  Among the strings of the model, whose characters are below U+0100, the parser
  accepts exactly the accepted texts of the valid dates.
\<close>

lemma strptime_iff: "strptime s = Inr dt \<longleftrightarrow> valid_date dt \<and> s \<in> set (accepted_texts dt)"
  using strptime_accepted accepted_strptime by blast



lemma mk_date_valid: "mk_date y m d = Inr dt \<Longrightarrow> valid_date dt"
  by (auto simp: mk_date_def split: if_splits)


text \<open>
  Where the platform does not pad the year, a date before the year 1000 does not
  come back as it was written.
\<close>

lemma strftime_dmY_year_999:
  "strptime ''12.06.0999'' = Inr \<lparr>year = 999, month = 6, day = 12\<rparr>
   \<and> strftime_dmY False \<lparr>year = 999, month = 6, day = 12\<rparr> = ''12.06.999''
   \<and> strftime_dmY True \<lparr>year = 999, month = 6, day = 12\<rparr> = ''12.06.0999''"
proof -
  have "strptime ''12.06.0999'' = Inr \<lparr>year = 999, month = 6, day = 12\<rparr>"
    by code_simp
  moreover have "strftime_dmY False \<lparr>year = 999, month = 6, day = 12\<rparr> = ''12.06.999''"
    by code_simp
  moreover have "strftime_dmY True \<lparr>year = 999, month = 6, day = 12\<rparr> = ''12.06.0999''"
    by code_simp
  ultimately show ?thesis by simp
qed






text \<open>
  Claim C10. When \<open>Birthday\<close> accepts a string, the field it returns holds that very
  string. Assigned to a record, it is what the display form of the record ends with
  and what the loop of \<open>get_upcoming_birthdays\<close> parses again.
\<close>

theorem Birthday_stores_raw_string:
  "Birthday v = Inr b \<longrightarrow>
     b = Field v \<and> field_value b = v \<and> Field_str b = v
     \<and> set_birthday r v = (Inr (), r\<lparr>birthday := Some (Field v)\<rparr>)
     \<and> Record_str l1 l2 l3 (snd (set_birthday r v))
         = l1 @ Field_str (name r) @ l2 @ join ''; '' (map Field_str (phones r)) @ l3 @ v
     \<and> upcoming_entry today (snd (set_birthday r v))
         = (case congratulation today v of
              Inl e \<Rightarrow> Inl e
            | Inr None \<Rightarrow> Inr None
            | Inr (Some cd) \<Rightarrow>
                Inr (Some \<lparr>entry_name = field_value (name r),
                           congratulation_date = strftime_Ymd cd\<rparr>))"
  by (auto simp: Birthday_def set_birthday_def Record_str_def Field_str_def upcoming_entry_def
      split: sum.splits error.splits option.splits)

theorem Birthday_stores_raw_string_witness:
  "Birthday ''15.06.1985'' = Inr (Field ''15.06.1985'')
   \<and> set_birthday (Record_init ''Bob'') ''15.06.1985''
       = (Inr (), \<lparr>name = Field ''Bob'', phones = [],
                   birthday = Some (Field ''15.06.1985'')\<rparr>)"
proof -
  have b: "Birthday ''15.06.1985'' = Inr (Field ''15.06.1985'')" by code_simp
  from Birthday_stores_raw_string [of "''15.06.1985''" "Field ''15.06.1985''"
      "Record_init ''Bob''"] b
  show ?thesis by (simp add: Record_init_def)
qed

section \<open>Ordinals and weekdays\<close>

lemma div_step:
  fixes y k :: int
  assumes "0 < k"
  shows "y div k = (y - 1) div k + (if y mod k = 0 then 1 else 0)"
proof (cases "y mod k = 0")
  case True
  have "y = k * (y div k) + y mod k" by simp
  with True have "y - 1 = k * (y div k - 1) + (k - 1)"
    by (simp add: algebra_simps)
  then have "(y - 1) div k = y div k - 1"
    by (rule int_div_pos_eq) (use assms in simp_all)
  with True show ?thesis by simp
next
  case False
  have r: "0 \<le> y mod k" "y mod k < k" using assms by simp_all
  have "y = k * (y div k) + y mod k" by simp
  then have "y - 1 = k * (y div k) + (y mod k - 1)" by simp
  then have "(y - 1) div k = y div k"
    by (rule int_div_pos_eq) (use False r in simp_all)
  with False show ?thesis by simp
qed

lemma mod_chain:
  fixes y :: int
  shows "y mod 100 = 0 \<Longrightarrow> y mod 4 = 0" and "y mod 400 = 0 \<Longrightarrow> y mod 100 = 0"
proof -
  have a: "(4::int) dvd 100" and b: "(100::int) dvd 400" by simp_all
  show "y mod 100 = 0 \<Longrightarrow> y mod 4 = 0"
    using a by (meson dvd_trans mod_0_imp_dvd dvd_imp_mod_0)
  show "y mod 400 = 0 \<Longrightarrow> y mod 100 = 0"
    using b by (meson dvd_trans mod_0_imp_dvd dvd_imp_mod_0)
qed

lemma leap_flags:
  "(if a then 1 else 0) - (if b then 1 else 0) + (if c then 1 else 0)
     = (if a \<and> (\<not> b \<or> c) then 1 else (0::int))" if "b \<Longrightarrow> a" "c \<Longrightarrow> b"
  using that by (cases a; cases b; cases c; simp)

lemma days_before_year_step:
  "days_before_year (y + 1) = days_before_year y + (if is_leap y then 366 else 365)"
proof -
  define q4 q100 q400 where q: "q4 = (y - 1) div 4" "q100 = (y - 1) div 100"
    "q400 = (y - 1) div 400"
  define f4 f100 f400 :: int where "f4 = (if y mod 4 = 0 then 1 else 0)"
    and "f100 = (if y mod 100 = 0 then 1 else 0)"
    and "f400 = (if y mod 400 = 0 then 1 else 0)"
  define l :: int where "l = (if is_leap y then 1 else 0)"
  have e: "y div 4 = q4 + f4" "y div 100 = q100 + f100" "y div 400 = q400 + f400"
    unfolding q f4_def f100_def f400_def
    by (rule div_step, simp)+
  have f: "f4 - f100 + f400 = l"
    unfolding f4_def f100_def f400_def l_def is_leap_def
    using mod_chain [of y]
    by (intro leap_flags [of "y mod 100 = 0" "y mod 4 = 0" "y mod 400 = 0"])
  have A: "days_before_year (y + 1) = y * 365 + (q4 + f4) - (q100 + f100) + (q400 + f400)"
    unfolding days_before_year_def e [symmetric] by simp
  have B: "days_before_year y = (y - 1) * 365 + q4 - q100 + q400"
    unfolding days_before_year_def q by (rule refl)
  have "(y - 1) * 365 = y * 365 - 365" by (simp add: algebra_simps)
  with A B f have "days_before_year (y + 1) = days_before_year y + 365 + l"
    by linarith
  then show ?thesis by (simp add: l_def)
qed

lemma valid_date_calendar_day: "valid_date dt \<Longrightarrow> calendar_day dt"
  by (simp add: valid_date_def calendar_day_def)

lemma toordinal_next_day:
  assumes "calendar_day dt"
  shows "toordinal (next_day dt) = toordinal dt + 1"
proof -
  have m: "1 \<le> month dt" "month dt \<le> 12" and d: "day dt \<le> days_in_month (year dt) (month dt)"
    using assms by (simp_all add: calendar_day_def)
  show ?thesis
    using month_cases [OF m] d
    by (elim disjE)
      (simp_all add: next_day_def toordinal_def days_before_month_def days_in_month_def
        days_before_year_step)
qed

lemma calendar_day_next_day:
  assumes "calendar_day dt"
  shows "calendar_day (next_day dt)"
proof -
  have m: "1 \<le> month dt" "month dt \<le> 12" and d: "1 \<le> day dt"
    using assms by (simp_all add: calendar_day_def)
  show ?thesis
    using month_cases [OF m] d
    by (elim disjE) (simp_all add: next_day_def calendar_day_def days_in_month_def)
qed

lemma add_days_ordinal:
  "calendar_day dt \<Longrightarrow>
     calendar_day (add_days dt n) \<and> toordinal (add_days dt n) = toordinal dt + int n"
  by (induction n arbitrary: dt) (simp_all add: calendar_day_next_day toordinal_next_day)

lemma weekday_range: "0 \<le> weekday dt \<and> weekday dt \<le> 6"
  by (simp add: weekday_def)

lemma shifted_weekday:
  fixes t :: int
  assumes "w = (t + 6) mod 7"
  shows "(t + (if w \<ge> 5 then 7 - w else 0) + 6) mod 7 = (if w \<ge> 5 then 0 else w)"
  using assms by presburger

lemma days_before_year_mono: "y \<le> y' \<Longrightarrow> days_before_year y \<le> days_before_year y'"
proof (induction y' rule: int_ge_induct)
  case base
  show ?case by simp
next
  case (step i)
  then show ?case by (simp add: days_before_year_step)
qed

lemma days_before_month_nonneg: "0 \<le> days_before_month y m"
  by (simp add: days_before_month_def)

lemma toordinal_year_bound:
  assumes "calendar_day dt" "toordinal dt \<le> MAXORDINAL"
  shows "year dt \<le> 9999"
proof (rule ccontr)
  assume "\<not> year dt \<le> 9999"
  then have "days_before_year 10000 \<le> days_before_year (year dt)"
    by (intro days_before_year_mono) simp
  moreover have "days_before_year 10000 = 3652059"
    by (simp add: days_before_year_def)
  moreover have "1 \<le> day dt"
    using assms(1) by (simp add: calendar_day_def)
  ultimately have "3652060 \<le> toordinal dt"
    using days_before_month_nonneg [of "year dt" "month dt"] by (simp add: toordinal_def)
  with assms(2) show False
    by (simp add: MAXORDINAL_def)
qed

lemma year_next_day: "year dt \<le> year (next_day dt)"
  by (simp add: next_day_def)

lemma year_add_days: "year dt \<le> year (add_days dt n)"
proof (induction n arbitrary: dt)
  case 0
  show ?case by simp
next
  case (Suc n)
  have "year dt \<le> year (next_day dt)" by (rule year_next_day)
  also have "\<dots> \<le> year (add_days (next_day dt) n)" by (rule Suc.IH)
  finally show ?case by simp
qed

lemma date_add_valid:
  assumes "valid_date dt" "date_add dt n = Inr dt'"
  shows "valid_date dt' \<and> toordinal dt' = toordinal dt + int n"
proof -
  from assms(2) have eq: "dt' = add_days dt n" and le: "toordinal dt + int n \<le> MAXORDINAL"
    by (simp_all add: date_add_def split: if_splits)
  have c: "calendar_day dt'" and o: "toordinal dt' = toordinal dt + int n"
    using add_days_ordinal [OF valid_date_calendar_day [OF assms(1)], of n] eq by simp_all
  have "year dt' \<le> 9999"
    using c le o by (intro toordinal_year_bound) simp_all
  moreover have "1 \<le> year dt'"
    using year_add_days [of dt n] assms(1) eq by (simp add: valid_date_def)
  ultimately show ?thesis
    using c o by (simp add: valid_date_def calendar_day_def)
qed

lemma length_zfill [simp]: "length (zfill2 n) = 2" "length (zfill4 n) = 4"
  by (simp_all add: zfill2_def zfill4_def)

lemma strftime_Ymd_inj:
  assumes "valid_date a" "valid_date b" "strftime_Ymd a = strftime_Ymd b"
  shows "a = b"
proof -
  have ba: "0 \<le> year a" "year a < 10000" "0 \<le> month a" "month a < 100" "0 \<le> day a" "day a < 100"
    using assms(1) by (auto simp: valid_date_def days_in_month_def split: if_splits)
  have bb: "0 \<le> year b" "year b < 10000" "0 \<le> month b" "month b < 100" "0 \<le> day b" "day b < 100"
    using assms(2) by (auto simp: valid_date_def days_in_month_def split: if_splits)
  from assms(3) have "zfill4 (year a) = zfill4 (year b)" "zfill2 (month a) = zfill2 (month b)"
    "zfill2 (day a) = zfill2 (day b)"
    by (simp_all add: strftime_Ymd_def)
  then have "py_int (zfill4 (year a)) = py_int (zfill4 (year b))"
    "py_int (zfill2 (month a)) = py_int (zfill2 (month b))"
    "py_int (zfill2 (day a)) = py_int (zfill2 (day b))"
    by simp_all
  then have "year a = year b" "month a = month b" "day a = day b"
    using ba bb by (simp_all add: py_int_zfill2 py_int_zfill4)
  then show ?thesis by simp
qed

section \<open>Upcoming birthdays\<close>

lemma upcoming_loop_entries:
  "upcoming_loop today rs acc = Inr res \<Longrightarrow> e \<in> set res \<Longrightarrow>
     e \<in> set acc \<or> (\<exists>r \<in> set rs. upcoming_entry today r = Inr (Some e))"
proof (induction rs arbitrary: acc)
  case Nil
  then show ?case by simp
next
  case (Cons r rs)
  show ?case
  proof (cases "upcoming_entry today r")
    case (Inl err)
    with Cons.prems show ?thesis by simp
  next
    case (Inr oe)
    show ?thesis
    proof (cases oe)
      case None
      with Inr Cons.prems have "upcoming_loop today rs acc = Inr res" by simp
      from Cons.IH [OF this Cons.prems(2)] show ?thesis by auto
    next
      case (Some e')
      with Inr Cons.prems have "upcoming_loop today rs (acc @ [e']) = Inr res" by simp
      from Cons.IH [OF this Cons.prems(2)] Inr Some show ?thesis by auto
    qed
  qed
qed

lemma congratulation_shift:
  assumes "valid_date today" "congratulation today raw = Inr (Some cd)"
  shows "\<exists>bd. valid_date bd
           \<and> toordinal today \<le> toordinal bd \<and> toordinal bd \<le> toordinal today + 7
           \<and> valid_date cd \<and> 0 \<le> weekday cd \<and> weekday cd \<le> 4
           \<and> (if weekday bd \<ge> 5
               then weekday cd = 0 \<and> toordinal cd = toordinal bd + (7 - weekday bd)
               else toordinal cd = toordinal bd)"
proof -
  from assms(2) obtain bd where
    v: "valid_date bd"
    and win: "0 \<le> toordinal bd - toordinal today" "toordinal bd - toordinal today \<le> 7"
    and cd: "date_add today (nat (shifted_days bd (toordinal bd - toordinal today))) = Inr cd"
    by (auto simp: congratulation_def replace_year_def split: sum.splits if_splits
        dest: mk_date_valid)
  define shift where "shift = (if weekday bd \<ge> 5 then 7 - weekday bd else 0)"
  have sh: "shifted_days bd (toordinal bd - toordinal today) = toordinal bd - toordinal today + shift"
    by (simp add: shifted_days_def shift_def)
  have "0 \<le> shift"
    using weekday_range [of bd] by (simp add: shift_def)
  with win have nn: "0 \<le> toordinal bd - toordinal today + shift" by simp
  from date_add_valid [OF assms(1) cd] nn
  have c: "valid_date cd" and o: "toordinal cd = toordinal bd + shift"
    by (simp_all add: sh)
  have w: "weekday cd = (if weekday bd \<ge> 5 then 0 else weekday bd)"
    unfolding weekday_def [of cd] o shift_def
    by (rule shifted_weekday) (simp add: weekday_def)
  have "0 \<le> weekday cd \<and> weekday cd \<le> 4"
    using w weekday_range [of bd] by (simp split: if_splits)
  moreover have "if weekday bd \<ge> 5
      then weekday cd = 0 \<and> toordinal cd = toordinal bd + (7 - weekday bd)
      else toordinal cd = toordinal bd"
    using w o by (simp add: shift_def)
  ultimately show ?thesis
    using v win c by (intro exI [of _ bd]) simp
qed

text \<open>
  Claim C8. When the query returns a list, every congratulation date in it is the
  text of a valid date from Monday to Friday, and no valid date with this text is a
  Saturday or a Sunday. The date belongs to an occurrence of the birthday at most 7
  days after today: it is that day when the occurrence is a weekday, and the Monday
  that follows it when the occurrence is a Saturday or a Sunday.
\<close>

theorem congratulation_date_never_on_weekend:
  assumes "valid_date today"
    and "get_upcoming_birthdays today book = (Inr upcoming, book')"
    and "e \<in> set upcoming"
  shows "(\<exists>cd bd. congratulation_date e = strftime_Ymd cd
            \<and> valid_date cd \<and> 0 \<le> weekday cd \<and> weekday cd \<le> 4
            \<and> valid_date bd
            \<and> toordinal today \<le> toordinal bd \<and> toordinal bd \<le> toordinal today + 7
            \<and> (if weekday bd \<ge> 5
                then weekday cd = 0 \<and> toordinal cd = toordinal bd + (7 - weekday bd)
                else toordinal cd = toordinal bd))
         \<and> (\<forall>d. valid_date d \<and> strftime_Ymd d = congratulation_date e
                \<longrightarrow> weekday d \<noteq> 5 \<and> weekday d \<noteq> 6)"
proof -
  from assms(2) have "upcoming_loop today (map snd (data book)) [] = Inr upcoming"
    by (auto simp: get_upcoming_birthdays_def)
  from upcoming_loop_entries [OF this assms(3)]
  obtain r where "upcoming_entry today r = Inr (Some e)" by auto
  then obtain raw cd where c: "congratulation today raw = Inr (Some cd)"
    and e: "congratulation_date e = strftime_Ymd cd"
    by (auto simp: upcoming_entry_def split: option.splits sum.splits)
  from congratulation_shift [OF assms(1) c] obtain bd where
    b: "valid_date bd" "toordinal today \<le> toordinal bd" "toordinal bd \<le> toordinal today + 7"
      "valid_date cd" "0 \<le> weekday cd" "weekday cd \<le> 4"
      "if weekday bd \<ge> 5
       then weekday cd = 0 \<and> toordinal cd = toordinal bd + (7 - weekday bd)
       else toordinal cd = toordinal bd"
    by blast
  have "weekday d \<noteq> 5 \<and> weekday d \<noteq> 6"
    if "valid_date d \<and> strftime_Ymd d = congratulation_date e" for d
  proof -
    from that e b(4) have "d = cd"
      by (intro strftime_Ymd_inj) simp_all
    with b(6) show ?thesis by simp
  qed
  with e b show ?thesis by blast
qed

theorem congratulation_date_witness:
  "weekday \<lparr>year = 2024, month = 6, day = 17\<rparr> \<noteq> 5
   \<and> weekday \<lparr>year = 2024, month = 6, day = 17\<rparr> \<noteq> 6"
proof -
  let ?today = "\<lparr>year = 2024, month = 6, day = 10\<rparr>"
  let ?book = "\<lparr>data = [(''Bob'', \<lparr>name = Field ''Bob'', phones = [],
                                  birthday = Some (Field ''15.06.1985'')\<rparr>)]\<rparr>"
  let ?e = "\<lparr>entry_name = ''Bob'', congratulation_date = ''2024.06.17''\<rparr>"
  have v: "valid_date ?today" by code_simp
  have "congratulation ?today ''15.06.1985'' = Inr (Some \<lparr>year = 2024, month = 6, day = 17\<rparr>)"
    by code_simp
  moreover have f: "strftime_Ymd \<lparr>year = 2024, month = 6, day = 17\<rparr> = ''2024.06.17''"
    by code_simp
  ultimately have g: "get_upcoming_birthdays ?today ?book = (Inr [?e], ?book)"
    by (simp add: get_upcoming_birthdays_def upcoming_entry_def)
  have d: "valid_date \<lparr>year = 2024, month = 6, day = 17\<rparr>" by code_simp
  from congratulation_date_never_on_weekend [OF v g, of ?e] d f
  show ?thesis by simp
qed

lemma congratulation_A:
  "congratulation \<lparr>year = 2024, month = 6, day = 10\<rparr> ''12.06.1990''
     = Inr (Some \<lparr>year = 2024, month = 6, day = 12\<rparr>)"
  by code_simp

lemma congratulation_B:
  "congratulation \<lparr>year = 2024, month = 6, day = 10\<rparr> ''15.06.1985''
     = Inr (Some \<lparr>year = 2024, month = 6, day = 17\<rparr>)"
  by code_simp

lemma congratulation_C:
  "congratulation \<lparr>year = 2024, month = 6, day = 10\<rparr> ''01.01.1990'' = Inr None"
  by code_simp

lemma strftime_A: "strftime_Ymd \<lparr>year = 2024, month = 6, day = 12\<rparr> = ''2024.06.12''"
  by code_simp

lemma strftime_B: "strftime_Ymd \<lparr>year = 2024, month = 6, day = 17\<rparr> = ''2024.06.17''"
  by code_simp

text \<open>
  Claim C1. On Monday 2024-06-10, for a directory of three records with the birthdays
  12.06.1990, 15.06.1985 and 01.01.1990, the query returns the first record with the
  date 2024.06.12 and the second with the date 2024.06.17, the Monday after its
  Saturday, and nothing for the third. The directory is unchanged.
\<close>

theorem upcoming_birthdays_scenario:
  "weekday \<lparr>year = 2024, month = 6, day = 10\<rparr> = 0
   \<and> get_upcoming_birthdays \<lparr>year = 2024, month = 6, day = 10\<rparr>
       \<lparr>data = [(ka, \<lparr>name = Field a, phones = pa, birthday = Some (Field ''12.06.1990'')\<rparr>),
                (kb, \<lparr>name = Field b, phones = pb, birthday = Some (Field ''15.06.1985'')\<rparr>),
                (kc, \<lparr>name = Field c, phones = pc, birthday = Some (Field ''01.01.1990'')\<rparr>)]\<rparr>
     = (Inr [\<lparr>entry_name = a, congratulation_date = ''2024.06.12''\<rparr>,
             \<lparr>entry_name = b, congratulation_date = ''2024.06.17''\<rparr>],
        \<lparr>data = [(ka, \<lparr>name = Field a, phones = pa, birthday = Some (Field ''12.06.1990'')\<rparr>),
                (kb, \<lparr>name = Field b, phones = pb, birthday = Some (Field ''15.06.1985'')\<rparr>),
                (kc, \<lparr>name = Field c, phones = pc, birthday = Some (Field ''01.01.1990'')\<rparr>)]\<rparr>)"
proof -
  have "weekday \<lparr>year = 2024, month = 6, day = 10\<rparr> = 0"
    by code_simp
  then show ?thesis
    by (simp add: get_upcoming_birthdays_def upcoming_entry_def congratulation_A
        congratulation_B congratulation_C strftime_A strftime_B)
qed

text \<open>
  Claim C2 does not hold of the code. \<open>Birthday\<close> accepts 29.02.2020, and with
  such a record in the directory the query of 2023-03-01, a year whose February has
  28 days, ends in the \<open>ValueError\<close> of \<open>replace\<close>.
\<close>

theorem leap_day_birthday_raises:
  "Birthday ''29.02.2020'' = Inr (Field ''29.02.2020'')
   \<and> days_in_month 2023 2 = 28
   \<and> valid_date \<lparr>year = 2023, month = 3, day = 1\<rparr>
   \<and> get_upcoming_birthdays \<lparr>year = 2023, month = 3, day = 1\<rparr>
       \<lparr>data = [(''Ann'', \<lparr>name = Field ''Ann'', phones = [],
                           birthday = Some (Field ''29.02.2020'')\<rparr>)]\<rparr>
     = (Inl LibValueError,
        \<lparr>data = [(''Ann'', \<lparr>name = Field ''Ann'', phones = [],
                           birthday = Some (Field ''29.02.2020'')\<rparr>)]\<rparr>)"
proof -
  have "Birthday ''29.02.2020'' = Inr (Field ''29.02.2020'')" by code_simp
  moreover have "days_in_month 2023 2 = 28" by code_simp
  moreover have "valid_date \<lparr>year = 2023, month = 3, day = 1\<rparr>" by code_simp
  moreover have "congratulation \<lparr>year = 2023, month = 3, day = 1\<rparr> ''29.02.2020''
      = Inl LibValueError" by code_simp
  ultimately show ?thesis
    by (simp add: get_upcoming_birthdays_def upcoming_entry_def)
qed

text \<open>
  More generally the query raises in every year that is not a leap year as soon as
  one record of the directory has a birthday on 29 February.
\<close>

lemma upcoming_loop_error:
  "r \<in> set rs \<Longrightarrow> upcoming_entry today r = Inl err \<Longrightarrow>
     \<exists>err'. upcoming_loop today rs acc = Inl err'"
  by (induction rs arbitrary: acc) (auto split: sum.splits option.splits)

lemma leap_day_in_common_year_raises:
  assumes "\<not> is_leap (year today)" "(k, r) \<in> set (data book)" "birthday r = Some b"
    and "strptime (field_value b) = Inr p" "month p = 2" "day p = 29"
  shows "\<exists>err. fst (get_upcoming_birthdays today book) = Inl err"
proof -
  have "replace_year p (year today) = Inl LibValueError"
    using assms(1,5,6) by (simp add: replace_year_def mk_date_def valid_date_def days_in_month_def)
  then have "upcoming_entry today r = Inl LibValueError"
    using assms(3,4) by (simp add: upcoming_entry_def congratulation_def)
  moreover have "r \<in> set (map snd (data book))"
    using assms(2) by force
  ultimately show ?thesis
    by (simp add: get_upcoming_birthdays_def upcoming_loop_error)
qed

text \<open>
  Claim C9. When the query returns a list, the directory is the one it was called
  on: the same names, and under every name the same record, with the same phones and
  the same birthday.
\<close>

theorem get_upcoming_birthdays_read_only:
  "get_upcoming_birthdays today book = (Inr upcoming, book') \<longrightarrow>
     book' = book
     \<and> fst ` set (data book') = fst ` set (data book)
     \<and> (\<forall>n. find_record book' n = find_record book n)
     \<and> (\<forall>n r. find_record book n = Inr r \<longrightarrow>
           (\<exists>r'. find_record book' n = Inr r' \<and> phones r' = phones r
                  \<and> birthday r' = birthday r))"
  by (auto simp: get_upcoming_birthdays_def)

theorem get_upcoming_birthdays_read_only_witness:
  "snd (get_upcoming_birthdays \<lparr>year = 2024, month = 6, day = 10\<rparr>
     \<lparr>data = [(''Bob'', \<lparr>name = Field ''Bob'', phones = [Field ''1112223333''],
                        birthday = Some (Field ''15.06.1985'')\<rparr>)]\<rparr>)
   = \<lparr>data = [(''Bob'', \<lparr>name = Field ''Bob'', phones = [Field ''1112223333''],
                        birthday = Some (Field ''15.06.1985'')\<rparr>)]\<rparr>"
proof -
  let ?today = "\<lparr>year = 2024, month = 6, day = 10\<rparr>"
  let ?book = "\<lparr>data = [(''Bob'', \<lparr>name = Field ''Bob'', phones = [Field ''1112223333''],
                                  birthday = Some (Field ''15.06.1985'')\<rparr>)]\<rparr>"
  let ?e = "\<lparr>entry_name = ''Bob'', congratulation_date = ''2024.06.17''\<rparr>"
  have "fst (get_upcoming_birthdays ?today ?book) = Inr [?e]"
    by code_simp
  then have "get_upcoming_birthdays ?today ?book
      = (Inr [?e], snd (get_upcoming_birthdays ?today ?book))"
    by (simp add: prod_eq_iff)
  with get_upcoming_birthdays_read_only
    [of ?today ?book "[?e]" "snd (get_upcoming_birthdays ?today ?book)"]
  show ?thesis by simp
qed

end
